theory Spec2Isabelle
  imports Main "HOL-Library.Word"
begin

section \<open>Aggregation visitors of the distributed SQL planner\<close>

text \<open>
  The development embeds \<^verbatim>\<open>pkg/sql/distsql_aggregator_visitors.go\<close>: the visitor
  \<^verbatim>\<open>aggExprVisitor\<close> with \<^verbatim>\<open>extractAggExprs\<close>, and the visitor
  \<^verbatim>\<open>postAggExprVisitor\<close> with \<^verbatim>\<open>extractPostAggrExprs\<close>.
\<close>

subsection \<open>Machine integers\<close>

type_synonym int32 = "32 word"
type_synonym uint32 = "32 word"
type_synonym int64 = "64 word"

subsection \<open>Expression trees\<close>

text \<open>
  Modelled from the spec: the node types of the \<^verbatim>\<open>parser\<close> package
  (\<^verbatim>\<open>parser.Expr\<close>, \<^verbatim>\<open>parser.FuncExpr\<close>, \<^verbatim>\<open>parser.IndexedVar\<close>) and the type
  \<^verbatim>\<open>aggregateFuncHolder\<close> are used by the source file but declared elsewhere. The
  variants are those of the spec's data model; the names are the Go names where the
  source file shows them. \<^verbatim>\<open>FuncExpr\<close> carries the text that
  \<^verbatim>\<open>f.Func.FunctionReference.String()\<close> returns, the field \<^verbatim>\<open>Type\<close> and the arguments;
  \<^verbatim>\<open>aggregateFuncHolder\<close> carries its field \<^verbatim>\<open>expr\<close>; \<^verbatim>\<open>IndexedVar\<close> carries its
  index, a Go \<^verbatim>\<open>int\<close> (64 bits).
\<close>

datatype funcType = NoFuncType | DistinctFuncType | AllFuncType

datatype Expr =
    Literal int
  | ColumnRef nat
  | FuncExpr string funcType "Expr list"
  | BinaryExpr string Expr Expr
  | aggregateFuncHolder Expr
  | IndexedVar int64

subsection \<open>What the file takes from other packages\<close>

text \<open>
  The generated table \<^verbatim>\<open>distsqlrun.AggregatorSpec_Func_value\<close> (a Go
  \<^verbatim>\<open>map[string]int32\<close>) and the constant \<^verbatim>\<open>distsqlrun.AggregatorSpec_IDENT\<close> are
  not among the sources: they are parameters. So is the Unicode case mapping that
  \<^verbatim>\<open>strings.ToUpper\<close> applies to a string that is not pure ASCII.
\<close>

record extern =
  AggregatorSpec_Func_value :: "string \<rightharpoonup> int32"
  AggregatorSpec_IDENT :: int32
  unicode_ToUpper :: "string \<Rightarrow> string"

text \<open>
  \<^verbatim>\<open>strings.ToUpper\<close> of the Go library: on a string of ASCII bytes only, the bytes
  \<^verbatim>\<open>'a'\<close> to \<^verbatim>\<open>'z'\<close> lose \<^verbatim>\<open>'a' - 'A'\<close> and every other byte stays; any other string
  goes through the Unicode mapping.
\<close>

definition isASCII :: "char \<Rightarrow> bool" where
  "isASCII c = ((of_char c :: nat) < 128)"

definition isLower :: "char \<Rightarrow> bool" where
  "isLower c = (97 \<le> (of_char c :: nat) \<and> (of_char c :: nat) \<le> 122)"

definition upperByte :: "char \<Rightarrow> char" where
  "upperByte c = (if isLower c then char_of ((of_char c :: nat) - 32) else c)"

definition ToUpper :: "extern \<Rightarrow> string \<Rightarrow> string" where
  "ToUpper env s = (if list_all isASCII s then map upperByte s else unicode_ToUpper env s)"

text \<open>Reading a Go map at a key it does not hold gives the zero value of the value type.\<close>

definition lookupFunc :: "extern \<Rightarrow> string \<Rightarrow> int32" where
  "lookupFunc env key = (case AggregatorSpec_Func_value env key of None \<Rightarrow> 0 | Some n \<Rightarrow> n)"

subsection \<open>The walk\<close>

text \<open>
  A visitor has the two methods of \<^verbatim>\<open>parser.Visitor\<close>; its own fields are the state
  \<open>'s\<close>, passed in and returned.
\<close>

record 's Visitor =
  VisitPre :: "'s \<Rightarrow> Expr \<Rightarrow> (bool \<times> Expr) \<times> 's"
  VisitPost :: "'s \<Rightarrow> Expr \<Rightarrow> Expr \<times> 's"

text \<open>
  Modelled from the spec: \<^verbatim>\<open>parser.WalkExpr\<close>, \<^verbatim>\<open>parser.WalkExprConst\<close> and the
  \<^verbatim>\<open>Walk\<close> methods of the nodes are called by the source file but defined elsewhere.
  \<open>WalkExpr\<close> calls \<open>VisitPre\<close> on the node; when that asks to recurse, the node walks
  its children from left to right, is rebuilt from the walked children, and is handed
  to \<open>VisitPost\<close>; otherwise the walk of this node ends. A marker node has no children
  to walk: its inner expression is not explored by either pass. Both visitors of the
  source file return their argument from \<open>VisitPre\<close> (lemmas \<open>aggExprVisitor_VisitPre_expr\<close>
  and \<open>postAggExprVisitor_VisitPre_expr\<close>), so the children walked are those of the
  visited node.
\<close>

function WalkExpr :: "'s Visitor \<Rightarrow> Expr \<Rightarrow> 's \<Rightarrow> Expr \<times> 's"
  and Walk :: "'s Visitor \<Rightarrow> Expr \<Rightarrow> 's \<Rightarrow> Expr \<times> 's"
  and WalkExprs :: "'s Visitor \<Rightarrow> Expr list \<Rightarrow> 's \<Rightarrow> Expr list \<times> 's"
where
  "WalkExpr v expr s =
     (case VisitPre v s expr of
        ((recurse, newExpr), s1) \<Rightarrow>
          if recurse
          then (case Walk v expr s1 of (walked, s2) \<Rightarrow> VisitPost v s2 walked)
          else (newExpr, s1))"
| "Walk v (Literal x) s = (Literal x, s)"
| "Walk v (ColumnRef c) s = (ColumnRef c, s)"
| "Walk v (FuncExpr f t args) s =
     (case WalkExprs v args s of (args', s1) \<Rightarrow> (FuncExpr f t args', s1))"
| "Walk v (BinaryExpr op l r) s =
     (case WalkExpr v l s of
        (l', s1) \<Rightarrow> (case WalkExpr v r s1 of (r', s2) \<Rightarrow> (BinaryExpr op l' r', s2)))"
| "Walk v (aggregateFuncHolder inner) s = (aggregateFuncHolder inner, s)"
| "Walk v (IndexedVar i) s = (IndexedVar i, s)"
| "WalkExprs v [] s = ([], s)"
| "WalkExprs v (e # es) s =
     (case WalkExpr v e s of
        (e', s1) \<Rightarrow> (case WalkExprs v es s1 of (es', s2) \<Rightarrow> (e' # es', s2)))"
  by pat_completeness auto
termination
  by (relation "measure (\<lambda>x. case x of
        Inl (v, e, s) \<Rightarrow> 2 * size e + 1
      | Inr (Inl (v, e, s)) \<Rightarrow> 2 * size e
      | Inr (Inr (v, es, s)) \<Rightarrow> 2 * size_list size es + 1)") auto

definition WalkExprConst :: "'s Visitor \<Rightarrow> Expr \<Rightarrow> 's \<Rightarrow> 's" where
  "WalkExprConst v expr s = snd (WalkExpr v expr s)"

subsection \<open>The extraction visitor\<close>

record AggregatorSpec_Expr =
  Func :: int32
  Distinct :: bool
  ColIdx :: uint32

record aggExprVisitor =
  exprs :: "AggregatorSpec_Expr list"

definition aggExprVisitor_VisitPre ::
  "extern \<Rightarrow> aggExprVisitor \<Rightarrow> Expr \<Rightarrow> (bool \<times> Expr) \<times> aggExprVisitor" where
  "aggExprVisitor_VisitPre env v expr =
     (case expr of
        aggregateFuncHolder fholder_expr \<Rightarrow>
          (case fholder_expr of
             FuncExpr f t args \<Rightarrow>
               (let aggexpr = \<lparr>Func = lookupFunc env (ToUpper env f),
                               Distinct = (t = DistinctFuncType),
                               ColIdx = 0\<rparr>
                in ((False, expr), v\<lparr>exprs := exprs v @ [aggexpr]\<rparr>))
           | _ \<Rightarrow>
               (let aggexpr = \<lparr>Func = AggregatorSpec_IDENT env, Distinct = False, ColIdx = 0\<rparr>
                in ((False, expr), v\<lparr>exprs := exprs v @ [aggexpr]\<rparr>)))
      | _ \<Rightarrow> ((True, expr), v))"

definition aggExprVisitor_VisitPost :: "aggExprVisitor \<Rightarrow> Expr \<Rightarrow> Expr \<times> aggExprVisitor" where
  "aggExprVisitor_VisitPost v expr = (expr, v)"

definition aggExprVisitor_Visitor :: "extern \<Rightarrow> aggExprVisitor Visitor" where
  "aggExprVisitor_Visitor env =
     \<lparr>VisitPre = aggExprVisitor_VisitPre env, VisitPost = aggExprVisitor_VisitPost\<rparr>"

text \<open>
  \<^verbatim>\<open>extract\<close> has a value receiver: it works on a copy of the visitor, and the
  caller's visitor keeps the fields it had.
\<close>

definition aggExprVisitor_extract ::
  "extern \<Rightarrow> aggExprVisitor \<Rightarrow> Expr \<Rightarrow> AggregatorSpec_Expr list" where
  "aggExprVisitor_extract env v typedExpr =
     exprs (WalkExprConst (aggExprVisitor_Visitor env) typedExpr v)"

text \<open>
  The first loop: \<^verbatim>\<open>aggExprs = append(aggExprs, v.extract(expr)...)\<close> for every
  expression of the render list, each call on the visitor as it was declared.
\<close>

fun extractAggExprs_collect ::
  "extern \<Rightarrow> aggExprVisitor \<Rightarrow> Expr list \<Rightarrow> AggregatorSpec_Expr list \<Rightarrow> AggregatorSpec_Expr list"
where
  "extractAggExprs_collect env v [] aggExprs = aggExprs"
| "extractAggExprs_collect env v (expr # render) aggExprs =
     extractAggExprs_collect env v render (aggExprs @ aggExprVisitor_extract env v expr)"

text \<open>The second loop: \<^verbatim>\<open>aggExprs[i].ColIdx = uint32(i)\<close> for every index of the slice.\<close>

fun extractAggExprs_number :: "nat \<Rightarrow> AggregatorSpec_Expr list \<Rightarrow> AggregatorSpec_Expr list" where
  "extractAggExprs_number i [] = []"
| "extractAggExprs_number i (a # aggExprs) =
     a\<lparr>ColIdx := of_nat i\<rparr> # extractAggExprs_number (Suc i) aggExprs"

text \<open>The receiver \<^verbatim>\<open>dsp\<close> is not read or written by the method.\<close>

definition extractAggExprs :: "'dsp \<Rightarrow> extern \<Rightarrow> Expr list \<Rightarrow> AggregatorSpec_Expr list" where
  "extractAggExprs dsp env render =
     extractAggExprs_number 0 (extractAggExprs_collect env \<lparr>exprs = []\<rparr> render [])"

subsection \<open>The rewriting visitor\<close>

record postAggExprVisitor =
  count :: int64

definition postAggExprVisitor_VisitPre ::
  "postAggExprVisitor \<Rightarrow> Expr \<Rightarrow> (bool \<times> Expr) \<times> postAggExprVisitor" where
  "postAggExprVisitor_VisitPre v expr = ((True, expr), v)"

text \<open>
  Modelled from the spec: \<^verbatim>\<open>parser.NewOrdinalReference\<close> is defined elsewhere. It
  makes the ordinal reference with the given index, a \<^verbatim>\<open>*parser.IndexedVar\<close>.
\<close>

definition NewOrdinalReference :: "int64 \<Rightarrow> Expr" where
  "NewOrdinalReference r = IndexedVar r"

definition postAggExprVisitor_VisitPost ::
  "postAggExprVisitor \<Rightarrow> Expr \<Rightarrow> Expr \<times> postAggExprVisitor" where
  "postAggExprVisitor_VisitPost v expr =
     (case expr of
        aggregateFuncHolder _ \<Rightarrow>
          (let newExpr = NewOrdinalReference (count v)
           in (newExpr, v\<lparr>count := count v + 1\<rparr>))
      | _ \<Rightarrow> (expr, v))"

definition postAggExprVisitor_Visitor :: "postAggExprVisitor Visitor" where
  "postAggExprVisitor_Visitor =
     \<lparr>VisitPre = postAggExprVisitor_VisitPre, VisitPost = postAggExprVisitor_VisitPost\<rparr>"

text \<open>\<^verbatim>\<open>extract\<close> has a pointer receiver: the counter it leaves is the caller's.\<close>

definition postAggExprVisitor_extract ::
  "postAggExprVisitor \<Rightarrow> Expr \<Rightarrow> Expr \<times> postAggExprVisitor" where
  "postAggExprVisitor_extract v typedExpr = WalkExpr postAggExprVisitor_Visitor typedExpr v"

text \<open>The type assertion \<^verbatim>\<open>result.(*parser.IndexedVar)\<close>.\<close>

fun isIndexedVar :: "Expr \<Rightarrow> bool" where
  "isIndexedVar (IndexedVar i) = True"
| "isIndexedVar _ = False"

text \<open>
  The loop over the render list, with the visitor, the list built so far and the flag
  so far.
\<close>

fun extractPostAggrExprs_loop ::
  "postAggExprVisitor \<Rightarrow> Expr list \<Rightarrow> Expr list \<Rightarrow> bool \<Rightarrow> Expr list \<times> bool" where
  "extractPostAggrExprs_loop v [] evalExprs needEval = (evalExprs, needEval)"
| "extractPostAggrExprs_loop v (expr # render) evalExprs needEval =
     (case postAggExprVisitor_extract v expr of
        (result, v') \<Rightarrow>
          extractPostAggrExprs_loop v' render (evalExprs @ [result])
            (if \<not> isIndexedVar result then True else needEval))"

definition extractPostAggrExprs :: "'dsp \<Rightarrow> Expr list \<Rightarrow> Expr list \<times> bool" where
  "extractPostAggrExprs dsp render = extractPostAggrExprs_loop \<lparr>count = 0\<rparr> render [] False"

subsection \<open>Markers, discovery order and positions\<close>

text \<open>
  The notions the properties below are stated with. A marker is an
  \<open>aggregateFuncHolder\<close> node. The discovery order lists the markers of an expression
  from left to right, a parent before its children, and does not look inside a marker.
\<close>

fun isHolder :: "Expr \<Rightarrow> bool" where
  "isHolder (aggregateFuncHolder inner) = True"
| "isHolder (Literal x) = False"
| "isHolder (ColumnRef c) = False"
| "isHolder (FuncExpr f t args) = False"
| "isHolder (BinaryExpr op l r) = False"
| "isHolder (IndexedVar i) = False"

fun isFuncExpr :: "Expr \<Rightarrow> bool" where
  "isFuncExpr (FuncExpr f t args) = True"
| "isFuncExpr (Literal x) = False"
| "isFuncExpr (ColumnRef c) = False"
| "isFuncExpr (BinaryExpr op l r) = False"
| "isFuncExpr (aggregateFuncHolder inner) = False"
| "isFuncExpr (IndexedVar i) = False"

fun discovered :: "Expr \<Rightarrow> Expr list" where
  "discovered (aggregateFuncHolder inner) = [aggregateFuncHolder inner]"
| "discovered (FuncExpr f t args) = concat (map discovered args)"
| "discovered (BinaryExpr op l r) = discovered l @ discovered r"
| "discovered (Literal x) = []"
| "discovered (ColumnRef c) = []"
| "discovered (IndexedVar i) = []"

definition discoveredL :: "Expr list \<Rightarrow> Expr list" where
  "discoveredL render = concat (map discovered render)"

text \<open>All markers of an expression, those inside a marker too.\<close>

fun countMarkers :: "Expr \<Rightarrow> nat" where
  "countMarkers (aggregateFuncHolder inner) = Suc (countMarkers inner)"
| "countMarkers (FuncExpr f t args) = sum_list (map countMarkers args)"
| "countMarkers (BinaryExpr op l r) = countMarkers l + countMarkers r"
| "countMarkers (Literal x) = 0"
| "countMarkers (ColumnRef c) = 0"
| "countMarkers (IndexedVar i) = 0"

text \<open>The precondition of both passes: no marker inside a marker.\<close>

fun noNestedMarkers :: "Expr \<Rightarrow> bool" where
  "noNestedMarkers (aggregateFuncHolder inner) = (countMarkers inner = 0)"
| "noNestedMarkers (FuncExpr f t args) = list_all noNestedMarkers args"
| "noNestedMarkers (BinaryExpr op l r) = (noNestedMarkers l \<and> noNestedMarkers r)"
| "noNestedMarkers (Literal x) = True"
| "noNestedMarkers (ColumnRef c) = True"
| "noNestedMarkers (IndexedVar i) = True"

text \<open>
  A position is a path of child indices; in a list of expressions its first index
  selects the expression.
\<close>

fun children :: "Expr \<Rightarrow> Expr list" where
  "children (FuncExpr f t args) = args"
| "children (BinaryExpr op l r) = [l, r]"
| "children (aggregateFuncHolder inner) = [inner]"
| "children (Literal x) = []"
| "children (ColumnRef c) = []"
| "children (IndexedVar i) = []"

fun subtreeAt :: "Expr \<Rightarrow> nat list \<Rightarrow> Expr option" where
  "subtreeAt e [] = Some e"
| "subtreeAt e (j # p) = (if j < length (children e) then subtreeAt (children e ! j) p else None)"

fun subtreeAtL :: "Expr list \<Rightarrow> nat list \<Rightarrow> Expr option" where
  "subtreeAtL es [] = None"
| "subtreeAtL es (j # p) = (if j < length es then subtreeAt (es ! j) p else None)"


text \<open>
  What \<open>VisitPre\<close> of the extraction visitor appends when it visits a node, and the
  entry it appends for a marker.
\<close>

definition appended :: "extern \<Rightarrow> Expr \<Rightarrow> AggregatorSpec_Expr list" where
  "appended env expr = exprs (snd (aggExprVisitor_VisitPre env \<lparr>exprs = []\<rparr> expr))"

definition emitted :: "extern \<Rightarrow> Expr \<Rightarrow> AggregatorSpec_Expr" where
  "emitted env m = last (appended env m)"


text \<open>
  Two bytes that differ at most in letter case: equal, or one a lower-case letter and
  the other its upper-case form.
\<close>

definition differInCase :: "char \<Rightarrow> char \<Rightarrow> bool" where
  "differInCase a b =
     (a = b \<or> (isLower a \<and> b = upperByte a) \<or> (isLower b \<and> a = upperByte b))"

subsection \<open>A sample table and render list\<close>

definition sampleEnv :: extern where
  "sampleEnv =
     \<lparr>AggregatorSpec_Func_value =
        [''AVG'' \<mapsto> 1, ''COUNT'' \<mapsto> 5, ''MAX'' \<mapsto> 7, ''MIN'' \<mapsto> 8, ''SUM'' \<mapsto> 10],
      AggregatorSpec_IDENT = 0,
      unicode_ToUpper = (\<lambda>s. s)\<rparr>"

text \<open>
  The render list of \<^verbatim>\<open>SELECT k, v, COUNT(DISTINCT k) + count(v)\<close>, the two columns
  being grouping columns.
\<close>

definition sampleRender :: "Expr list" where
  "sampleRender =
     [aggregateFuncHolder (ColumnRef 0),
      aggregateFuncHolder (ColumnRef 1),
      BinaryExpr ''+''
        (aggregateFuncHolder (FuncExpr ''COUNT'' DistinctFuncType [ColumnRef 0]))
        (aggregateFuncHolder (FuncExpr ''count'' NoFuncType [ColumnRef 1]))]"

text \<open>A render list with an aggregate function the table does not know.\<close>

definition bogusRender :: "Expr list" where
  "bogusRender =
     [BinaryExpr ''+''
        (aggregateFuncHolder (FuncExpr ''BOGUS'' NoFuncType [ColumnRef 0]))
        (Literal 1)]"

section \<open>Lemmas\<close>

declare WalkExpr.simps [simp del]

subsection \<open>The visitors' methods\<close>

lemma aggExprVisitor_VisitPre_expr: "snd (fst (aggExprVisitor_VisitPre env v expr)) = expr"
  by (simp add: aggExprVisitor_VisitPre_def Let_def split: Expr.splits)

lemma postAggExprVisitor_VisitPre_expr: "snd (fst (postAggExprVisitor_VisitPre v expr)) = expr"
  by (simp add: postAggExprVisitor_VisitPre_def)

lemma VisitPre_holder:
  "aggExprVisitor_VisitPre env v (aggregateFuncHolder inner) =
     ((False, aggregateFuncHolder inner),
      v\<lparr>exprs := exprs v @ appended env (aggregateFuncHolder inner)\<rparr>)"
  by (simp add: aggExprVisitor_VisitPre_def appended_def Let_def split: Expr.splits)

lemma VisitPre_other:
  "\<not> isHolder expr \<Longrightarrow> aggExprVisitor_VisitPre env v expr = ((True, expr), v)"
  by (cases expr) (simp_all add: aggExprVisitor_VisitPre_def)

lemma appended_holder: "isHolder m \<Longrightarrow> appended env m = [emitted env m]"
  by (cases m)
    (simp_all add: emitted_def appended_def aggExprVisitor_VisitPre_def Let_def split: Expr.splits)

lemma emitted_FuncExpr:
  "emitted env (aggregateFuncHolder (FuncExpr f t args)) =
     \<lparr>Func = lookupFunc env (ToUpper env f), Distinct = (t = DistinctFuncType), ColIdx = 0\<rparr>"
  by (simp add: emitted_def appended_def aggExprVisitor_VisitPre_def)

lemma emitted_other:
  "\<not> isFuncExpr inner \<Longrightarrow>
     emitted env (aggregateFuncHolder inner) =
       \<lparr>Func = AggregatorSpec_IDENT env, Distinct = False, ColIdx = 0\<rparr>"
  by (cases inner) (simp_all add: emitted_def appended_def aggExprVisitor_VisitPre_def)



subsection \<open>The extraction walk\<close>

lemma sum_list_map_eq:
  "(\<And>x. x \<in> set xs \<Longrightarrow> f x = g x) \<Longrightarrow> sum_list (map f xs) = sum_list (map g xs)"
  by (induction xs) auto

lemma agg_walk:
  "v = aggExprVisitor_Visitor env \<Longrightarrow>
     WalkExpr v expr s =
       (expr, s\<lparr>exprs := exprs s @ concat (map (appended env) (discovered expr))\<rparr>)"
  "v = aggExprVisitor_Visitor env \<Longrightarrow> \<not> isHolder expr \<Longrightarrow>
     Walk v expr s =
       (expr, s\<lparr>exprs := exprs s @ concat (map (appended env) (discovered expr))\<rparr>)"
  "v = aggExprVisitor_Visitor env \<Longrightarrow>
     WalkExprs v es s =
       (es, s\<lparr>exprs := exprs s @ concat (map (appended env) (concat (map discovered es)))\<rparr>)"
proof (induction v expr s and v expr s and v es s rule: WalkExpr_Walk_WalkExprs.induct)
  case (1 v expr s)
  show ?case
  proof (cases "isHolder expr")
    case True
    then obtain inner where "expr = aggregateFuncHolder inner"
      by (cases expr) auto
    then show ?thesis
      using 1(2) by (simp add: WalkExpr.simps aggExprVisitor_Visitor_def VisitPre_holder)
  next
    case False
    then show ?thesis
      using 1
      by (simp add: WalkExpr.simps aggExprVisitor_Visitor_def VisitPre_other
            aggExprVisitor_VisitPost_def)
  qed
qed simp_all

lemma discovered_isHolder: "m \<in> set (discovered e) \<Longrightarrow> isHolder m"
  by (induction e rule: discovered.induct) auto


lemma concat_appended:
  "\<forall>m \<in> set ms. isHolder m \<Longrightarrow> concat (map (appended env) ms) = map (emitted env) ms"
  by (induction ms) (simp_all add: appended_holder)

lemma extract_discovered:
  "aggExprVisitor_extract env v e = exprs v @ map (emitted env) (discovered e)"
  using discovered_isHolder
  by (simp add: aggExprVisitor_extract_def WalkExprConst_def agg_walk(1) concat_appended)

lemma collect_discovered:
  "extractAggExprs_collect env \<lparr>exprs = []\<rparr> render acc =
     acc @ map (emitted env) (discoveredL render)"
  by (induction render arbitrary: acc) (simp_all add: extract_discovered discoveredL_def)

lemma length_number: "length (extractAggExprs_number i xs) = length xs"
  by (induction xs arbitrary: i) simp_all

lemma nth_number:
  "j < length xs \<Longrightarrow> extractAggExprs_number i xs ! j = (xs ! j)\<lparr>ColIdx := of_nat (i + j)\<rparr>"
proof (induction xs arbitrary: i j)
  case Nil
  then show ?case by simp
next
  case (Cons a xs)
  then show ?case by (cases j) simp_all
qed

lemma extractAggExprs_discovered:
  "extractAggExprs dsp env render =
     extractAggExprs_number 0 (map (emitted env) (discoveredL render))"
  by (simp add: extractAggExprs_def collect_discovered)

lemma length_extractAggExprs:
  "length (extractAggExprs dsp env render) = length (discoveredL render)"
  by (simp add: extractAggExprs_discovered length_number)

lemma nth_extractAggExprs:
  "i < length (discoveredL render) \<Longrightarrow>
     extractAggExprs dsp env render ! i = (emitted env (discoveredL render ! i))\<lparr>ColIdx := of_nat i\<rparr>"
  by (simp add: extractAggExprs_discovered nth_number)

lemma discovered_noNested: "noNestedMarkers e \<Longrightarrow> length (discovered e) = countMarkers e"
proof (induction e rule: discovered.induct)
  case (2 f t args)
  then have "sum_list (map (\<lambda>a. length (discovered a)) args) = sum_list (map countMarkers args)"
    by (intro sum_list_map_eq) (simp add: list_all_iff)
  then show ?case by (simp add: length_concat comp_def)
qed simp_all

lemma discoveredL_noNested:
  "list_all noNestedMarkers render \<Longrightarrow>
     length (discoveredL render) = sum_list (map countMarkers render)"
proof -
  assume "list_all noNestedMarkers render"
  then have "sum_list (map (\<lambda>a. length (discovered a)) render) = sum_list (map countMarkers render)"
    by (intro sum_list_map_eq) (simp add: list_all_iff discovered_noNested)
  then show ?thesis by (simp add: discoveredL_def length_concat comp_def)
qed

subsection \<open>The rewriting walk\<close>

lemma isIndexedVar_iff: "isIndexedVar r = (\<exists>i. r = IndexedVar i)"
  by (cases r) simp_all

lemma loop_WalkExprs:
  "extractPostAggrExprs_loop v render evalExprs needEval =
     (evalExprs @ fst (WalkExprs postAggExprVisitor_Visitor render v),
      needEval \<or> \<not> list_all isIndexedVar (fst (WalkExprs postAggExprVisitor_Visitor render v)))"
proof (induction render arbitrary: v evalExprs needEval)
  case Nil
  then show ?case by simp
next
  case (Cons expr render)
  obtain result v' where r: "WalkExpr postAggExprVisitor_Visitor expr v = (result, v')"
    by (cases "WalkExpr postAggExprVisitor_Visitor expr v")
  obtain rest v'' where w: "WalkExprs postAggExprVisitor_Visitor render v' = (rest, v'')"
    by (cases "WalkExprs postAggExprVisitor_Visitor render v'")
  show ?case
    using r w Cons.IH [of v' "evalExprs @ [result]"]
    by (simp add: postAggExprVisitor_extract_def)
qed

subsection \<open>Positions\<close>

lemma subtreeAtL_pre: "subtreeAtL (pre @ e # es) (length pre # p) = subtreeAt e p"
  by simp












subsection \<open>Letter case\<close>

lemma upperByte_not_lower: "isLower c \<Longrightarrow> \<not> isLower (char_of ((of_char c :: nat) - 32))"
  by (simp add: isLower_def) arith

lemma upperByte_idem: "upperByte (upperByte c) = upperByte c"
  by (simp add: upperByte_def upperByte_not_lower)

lemma differInCase_upper: "differInCase a b \<Longrightarrow> upperByte a = upperByte b"
  unfolding differInCase_def using upperByte_idem by (metis upperByte_def)

lemma differInCase_ascii: "differInCase a b \<Longrightarrow> isASCII a \<Longrightarrow> isASCII b"
  unfolding differInCase_def upperByte_def isLower_def isASCII_def
  by auto

lemma names_upper: "list_all2 differInCase f1 f2 \<Longrightarrow> map upperByte f1 = map upperByte f2"
  by (induction rule: list_all2_induct) (simp_all add: differInCase_upper)

lemma names_ascii: "list_all2 differInCase f1 f2 \<Longrightarrow> list_all isASCII f1 \<Longrightarrow> list_all isASCII f2"
  by (induction rule: list_all2_induct) (auto simp add: differInCase_ascii)

lemma ToUpper_differInCase:
  "list_all2 differInCase f1 f2 \<Longrightarrow> list_all isASCII f1 \<Longrightarrow> ToUpper env f1 = ToUpper env f2"
  by (simp add: ToUpper_def names_upper names_ascii)

section \<open>Properties of the two passes\<close>

subsection \<open>The numbering of the entries\<close>

text \<open>
  C1. For every render list with \<open>k\<close> markers in all, none inside another,
  \<open>extractAggExprs\<close> returns exactly \<open>k\<close> entries; their \<open>ColIdx\<close> fields, read
  in list order, are \<open>0, 1, \<dots>, k - 1\<close>; and the \<open>i\<close>-th entry is the one made for
  the \<open>i\<close>-th marker of the discovery order (expressions from left to right, a parent
  before its children). \<open>ColIdx\<close> is the \<^verbatim>\<open>uint32\<close> conversion of the index: the
  number itself for every list of at most \<open>2 ^ 32\<close> entries.
\<close>

theorem extractAggExprs_ColIdx_sequence:
  assumes nn: "list_all noNestedMarkers render"
    and k: "k = sum_list (map countMarkers render)"
  shows "length (extractAggExprs dsp env render) = k \<and>
         map ColIdx (extractAggExprs dsp env render) = map of_nat [0..<k] \<and>
         (k \<le> 2 ^ 32 \<longrightarrow>
            map (\<lambda>a. unat (ColIdx a)) (extractAggExprs dsp env render) = [0..<k]) \<and>
         extractAggExprs dsp env render =
           map (\<lambda>i. (emitted env (discoveredL render ! i))\<lparr>ColIdx := of_nat i\<rparr>) [0..<k]"
proof -
  have len: "length (discoveredL render) = k"
    using nn k by (simp add: discoveredL_noNested)
  have l: "length (extractAggExprs dsp env render) = k"
    by (simp add: length_extractAggExprs len)
  have e: "extractAggExprs dsp env render =
      map (\<lambda>i. (emitted env (discoveredL render ! i))\<lparr>ColIdx := of_nat i\<rparr>) [0..<k]"
    by (rule nth_equalityI) (simp_all add: l nth_extractAggExprs len)
  have c: "map ColIdx (extractAggExprs dsp env render) = map of_nat [0..<k]"
    by (subst e) (simp add: comp_def)
  have u: "map (\<lambda>a. unat (ColIdx a)) (extractAggExprs dsp env render) = [0..<k]"
    if "k \<le> 2 ^ 32"
  proof -
    have "map (\<lambda>a. unat (ColIdx a)) (extractAggExprs dsp env render)
            = map (\<lambda>i. unat (of_nat i :: uint32)) [0..<k]"
      by (subst e) (simp add: comp_def)
    also have "\<dots> = map (\<lambda>i. i) [0..<k]"
    proof (rule map_cong [OF refl])
      fix i assume "i \<in> set [0..<k]"
      then have "i < 2 ^ 32" using that by simp
      then show "unat (of_nat i :: uint32) = i"
        by (simp add: unat_of_nat)
    qed
    finally show ?thesis by simp
  qed
  show ?thesis using l c u e by blast
qed

theorem extractAggExprs_ColIdx_sequence_witness:
  "list_all noNestedMarkers sampleRender \<and>
   sum_list (map countMarkers sampleRender) = 4 \<and>
   length (extractAggExprs () sampleEnv sampleRender) = 4 \<and>
   map ColIdx (extractAggExprs () sampleEnv sampleRender) = [0, 1, 2, 3] \<and>
   map (\<lambda>a. unat (ColIdx a)) (extractAggExprs () sampleEnv sampleRender) = [0, 1, 2, 3] \<and>
   extractAggExprs () sampleEnv sampleRender =
     [\<lparr>Func = 0, Distinct = False, ColIdx = 0\<rparr>,
      \<lparr>Func = 0, Distinct = False, ColIdx = 1\<rparr>,
      \<lparr>Func = 5, Distinct = True, ColIdx = 2\<rparr>,
      \<lparr>Func = 5, Distinct = False, ColIdx = 3\<rparr>]"
proof -
  have nn: "list_all noNestedMarkers sampleRender"
    by code_simp
  have k: "4 = sum_list (map countMarkers sampleRender)"
    by code_simp
  note t = extractAggExprs_ColIdx_sequence [OF nn k, of "()" sampleEnv]
  have r: "[0..<4] = [0, 1, 2, 3::nat]"
    by code_simp
  have w: "map of_nat [0..<4] = [0, 1, 2, 3::uint32]"
    by (simp add: r)
  have d: "map (\<lambda>i. (emitted sampleEnv (discoveredL sampleRender ! i))\<lparr>ColIdx := of_nat i\<rparr>) [0..<4] =
     [\<lparr>Func = 0, Distinct = False, ColIdx = 0\<rparr>,
      \<lparr>Func = 0, Distinct = False, ColIdx = 1\<rparr>,
      \<lparr>Func = 5, Distinct = True, ColIdx = 2\<rparr>,
      \<lparr>Func = 5, Distinct = False, ColIdx = 3\<rparr>]"
    by code_simp
  have b: "(4::nat) \<le> 2 ^ 32"
    by simp
  from t have t1: "length (extractAggExprs () sampleEnv sampleRender) = 4"
    by blast
  from t have t2: "map ColIdx (extractAggExprs () sampleEnv sampleRender) = map of_nat [0..<4]"
    by blast
  from t b have t3: "map (\<lambda>a. unat (ColIdx a)) (extractAggExprs () sampleEnv sampleRender) = [0..<4]"
    by blast
  from t have t4: "extractAggExprs () sampleEnv sampleRender =
      map (\<lambda>i. (emitted sampleEnv (discoveredL sampleRender ! i))\<lparr>ColIdx := of_nat i\<rparr>) [0..<4]"
    by blast
  show ?thesis
    using nn k t1 t2 [unfolded w] t3 [unfolded r] t4 [unfolded d] by simp
qed

subsection \<open>The two passes agree\<close>



subsection \<open>Needing evaluation\<close>

text \<open>
  C3. For every render list, \<open>needEval\<close> is false exactly when every expression of
  the returned list is an \<open>IndexedVar\<close> node itself, with nothing around it.
\<close>

theorem needEval_iff_bare_references:
  "(snd (extractPostAggrExprs dsp render) = False) =
     (\<forall>r \<in> set (fst (extractPostAggrExprs dsp render)). \<exists>i. r = IndexedVar i)"
  by (simp add: extractPostAggrExprs_def loop_WalkExprs list_all_iff isIndexedVar_iff)

theorem needEval_iff_bare_references_witness:
  "snd (extractPostAggrExprs () (take 2 sampleRender)) = False \<and>
   fst (extractPostAggrExprs () (take 2 sampleRender)) = [IndexedVar 0, IndexedVar 1] \<and>
   snd (extractPostAggrExprs () sampleRender) = True \<and>
   fst (extractPostAggrExprs () sampleRender) =
     [IndexedVar 0, IndexedVar 1, BinaryExpr ''+'' (IndexedVar 2) (IndexedVar 3)]"
proof -
  have a: "extractPostAggrExprs () (take 2 sampleRender) = ([IndexedVar 0, IndexedVar 1], False)"
    by code_simp
  have b: "extractPostAggrExprs () sampleRender =
      ([IndexedVar 0, IndexedVar 1, BinaryExpr ''+'' (IndexedVar 2) (IndexedVar 3)], True)"
    by code_simp
  show ?thesis
    using needEval_iff_bare_references [of "()" "take 2 sampleRender"]
      needEval_iff_bare_references [of "()" sampleRender]
    by (simp add: a b)
qed

subsection \<open>Unknown function names\<close>

text \<open>
  C4. For every marker met by the extraction whose inner expression is a function call
  with a name that, upper-cased, is not a key of the table, the extraction returns an
  entry for it (it has no error result), and the \<open>Func\<close> of that entry is the zero
  value of the enumeration.
\<close>

theorem unrecognized_name_zero_kind:
  assumes "i < length (discoveredL render)"
    and "discoveredL render ! i = aggregateFuncHolder (FuncExpr f t args)"
    and "ToUpper env f \<notin> dom (AggregatorSpec_Func_value env)"
  shows "i < length (extractAggExprs dsp env render) \<and>
         Func (extractAggExprs dsp env render ! i) = 0"
  using assms
  by (simp add: length_extractAggExprs nth_extractAggExprs emitted_FuncExpr lookupFunc_def domIff)

theorem unrecognized_name_zero_kind_witness:
  "0 < length (discoveredL bogusRender) \<and>
   discoveredL bogusRender ! 0 = aggregateFuncHolder (FuncExpr ''BOGUS'' NoFuncType [ColumnRef 0]) \<and>
   ToUpper sampleEnv ''BOGUS'' \<notin> dom (AggregatorSpec_Func_value sampleEnv) \<and>
   0 < length (extractAggExprs () sampleEnv bogusRender) \<and>
   Func (extractAggExprs () sampleEnv bogusRender ! 0) = 0"
proof -
  have i: "0 < length (discoveredL bogusRender)"
    by code_simp
  have d: "discoveredL bogusRender ! 0 =
      aggregateFuncHolder (FuncExpr ''BOGUS'' NoFuncType [ColumnRef 0])"
    by code_simp
  have "ToUpper sampleEnv ''BOGUS'' = ''BOGUS''"
    by code_simp
  then have u: "ToUpper sampleEnv ''BOGUS'' \<notin> dom (AggregatorSpec_Func_value sampleEnv)"
    by (simp add: sampleEnv_def)
  show ?thesis
    using unrecognized_name_zero_kind [OF i d u, of "()"] i d u by simp
qed

subsection \<open>Pass-through markers\<close>

text \<open>
  C5. For every marker met by the extraction whose inner expression is not a function
  call, whatever else it is, the entry made for it has \<open>Func\<close> equal to
  \<^verbatim>\<open>AggregatorSpec_IDENT\<close> and \<open>Distinct\<close> false.
\<close>

theorem pass_through_IDENT:
  assumes "i < length (discoveredL render)"
    and "discoveredL render ! i = aggregateFuncHolder inner"
    and "\<not> isFuncExpr inner"
  shows "Func (extractAggExprs dsp env render ! i) = AggregatorSpec_IDENT env \<and>
         Distinct (extractAggExprs dsp env render ! i) = False"
  using assms by (simp add: nth_extractAggExprs emitted_other)

theorem pass_through_IDENT_witness:
  "1 < length (discoveredL sampleRender) \<and>
   discoveredL sampleRender ! 1 = aggregateFuncHolder (ColumnRef 1) \<and>
   \<not> isFuncExpr (ColumnRef 1) \<and>
   Func (extractAggExprs () sampleEnv sampleRender ! 1) = AggregatorSpec_IDENT sampleEnv \<and>
   Distinct (extractAggExprs () sampleEnv sampleRender ! 1) = False"
proof -
  have i: "1 < length (discoveredL sampleRender)"
    by code_simp
  have d: "discoveredL sampleRender ! 1 = aggregateFuncHolder (ColumnRef 1)"
    by code_simp
  have n: "\<not> isFuncExpr (ColumnRef 1)"
    by simp
  show ?thesis
    using pass_through_IDENT [OF i d n, of "()" sampleEnv] i d by simp
qed

subsection \<open>Markers are leaves of the extraction\<close>

text \<open>
  C6. A marker gives exactly one entry, whatever its inner expression is (also when
  that holds further markers: nothing inside a marker gives an entry); a node that is
  not a marker gives the entries of its children, in order; and the result of
  \<open>extractAggExprs\<close> is the numbered concatenation over the render list.
\<close>

theorem marker_is_leaf_of_extraction:
  "aggExprVisitor_extract env \<lparr>exprs = []\<rparr> (aggregateFuncHolder inner) =
     [emitted env (aggregateFuncHolder inner)] \<and>
   aggExprVisitor_extract env \<lparr>exprs = []\<rparr> (BinaryExpr op l r) =
     aggExprVisitor_extract env \<lparr>exprs = []\<rparr> l @ aggExprVisitor_extract env \<lparr>exprs = []\<rparr> r \<and>
   aggExprVisitor_extract env \<lparr>exprs = []\<rparr> (FuncExpr f t args) =
     concat (map (aggExprVisitor_extract env \<lparr>exprs = []\<rparr>) args) \<and>
   aggExprVisitor_extract env \<lparr>exprs = []\<rparr> (Literal x) = [] \<and>
   aggExprVisitor_extract env \<lparr>exprs = []\<rparr> (ColumnRef c) = [] \<and>
   aggExprVisitor_extract env \<lparr>exprs = []\<rparr> (IndexedVar n) = [] \<and>
   extractAggExprs dsp env render =
     extractAggExprs_number 0 (concat (map (aggExprVisitor_extract env \<lparr>exprs = []\<rparr>) render))"
proof -
  have "aggExprVisitor_extract env \<lparr>exprs = []\<rparr> = (\<lambda>e. map (emitted env) (discovered e))"
    by (rule ext) (simp add: extract_discovered)
  then show ?thesis
    by (simp add: map_concat comp_def extractAggExprs_discovered discoveredL_def)
qed

subsection \<open>Distinct\<close>

text \<open>
  C7. For every marker met by the extraction whose inner expression is a function
  call, \<open>Distinct\<close> of its entry says whether the call's \<open>Type\<close> is
  \<^verbatim>\<open>DistinctFuncType\<close>; in particular a marker around \<^verbatim>\<open>COUNT\<close> with
  \<^verbatim>\<open>DistinctFuncType\<close> gives the entry with the table's kind for \<^verbatim>\<open>COUNT\<close>,
  \<open>Distinct\<close> true and its discovery index as \<open>ColIdx\<close>.
\<close>

theorem distinct_propagation:
  assumes "i < length (discoveredL render)"
    and "discoveredL render ! i = aggregateFuncHolder (FuncExpr f t args)"
  shows "Distinct (extractAggExprs dsp env render ! i) = (t = DistinctFuncType) \<and>
         ColIdx (extractAggExprs dsp env render ! i) = of_nat i \<and>
         (f = ''COUNT'' \<and> t = DistinctFuncType \<longrightarrow>
            extractAggExprs dsp env render ! i =
              \<lparr>Func = lookupFunc env ''COUNT'', Distinct = True, ColIdx = of_nat i\<rparr>)"
proof -
  have "ToUpper env ''COUNT'' = ''COUNT''"
    by code_simp
  then show ?thesis
    using assms by (simp add: nth_extractAggExprs emitted_FuncExpr)
qed

theorem distinct_propagation_witness:
  "2 < length (discoveredL sampleRender) \<and>
   discoveredL sampleRender ! 2 =
     aggregateFuncHolder (FuncExpr ''COUNT'' DistinctFuncType [ColumnRef 0]) \<and>
   lookupFunc sampleEnv ''COUNT'' = 5 \<and>
   extractAggExprs () sampleEnv sampleRender ! 2 = \<lparr>Func = 5, Distinct = True, ColIdx = 2\<rparr>"
proof -
  have i: "2 < length (discoveredL sampleRender)"
    by code_simp
  have d: "discoveredL sampleRender ! 2 =
      aggregateFuncHolder (FuncExpr ''COUNT'' DistinctFuncType [ColumnRef 0])"
    by code_simp
  have l: "lookupFunc sampleEnv ''COUNT'' = 5"
    by code_simp
  show ?thesis
    using distinct_propagation [OF i d, of "()" sampleEnv] i d l by simp
qed

subsection \<open>Letter case of function names\<close>

text \<open>
  C8. The table is read at the upper-cased name: for every marker around a function
  call, \<open>Func\<close> of its entry is the table's value at \<open>ToUpper\<close> of the name; two
  names with the same upper-cased form get the same \<open>Func\<close>; and so do two ASCII
  names that differ only in letter case.
\<close>

theorem lookup_case_insensitive:
  assumes "i1 < length (discoveredL render1)"
    and "discoveredL render1 ! i1 = aggregateFuncHolder (FuncExpr f1 t1 args1)"
    and "i2 < length (discoveredL render2)"
    and "discoveredL render2 ! i2 = aggregateFuncHolder (FuncExpr f2 t2 args2)"
  shows "Func (extractAggExprs dsp env render1 ! i1) = lookupFunc env (ToUpper env f1) \<and>
         (ToUpper env f1 = ToUpper env f2 \<longrightarrow>
            Func (extractAggExprs dsp env render1 ! i1) = Func (extractAggExprs dsp env render2 ! i2)) \<and>
         (list_all isASCII f1 \<and> list_all2 differInCase f1 f2 \<longrightarrow>
            Func (extractAggExprs dsp env render1 ! i1) = Func (extractAggExprs dsp env render2 ! i2))"
proof -
  have "list_all isASCII f1 \<and> list_all2 differInCase f1 f2 \<longrightarrow> ToUpper env f1 = ToUpper env f2"
    using ToUpper_differInCase by blast
  then show ?thesis
    using assms by (auto simp add: nth_extractAggExprs emitted_FuncExpr)
qed

theorem lookup_case_insensitive_witness:
  "2 < length (discoveredL sampleRender) \<and>
   discoveredL sampleRender ! 2 =
     aggregateFuncHolder (FuncExpr ''COUNT'' DistinctFuncType [ColumnRef 0]) \<and>
   3 < length (discoveredL sampleRender) \<and>
   discoveredL sampleRender ! 3 =
     aggregateFuncHolder (FuncExpr ''count'' NoFuncType [ColumnRef 1]) \<and>
   list_all isASCII ''COUNT'' \<and> list_all2 differInCase ''COUNT'' ''count'' \<and>
   ToUpper sampleEnv ''COUNT'' = ToUpper sampleEnv ''count'' \<and>
   Func (extractAggExprs () sampleEnv sampleRender ! 2) = 5 \<and>
   Func (extractAggExprs () sampleEnv sampleRender ! 3) = 5"
proof -
  have i1: "2 < length (discoveredL sampleRender)"
    by code_simp
  have d1: "discoveredL sampleRender ! 2 =
      aggregateFuncHolder (FuncExpr ''COUNT'' DistinctFuncType [ColumnRef 0])"
    by code_simp
  have i2: "3 < length (discoveredL sampleRender)"
    by code_simp
  have d2: "discoveredL sampleRender ! 3 =
      aggregateFuncHolder (FuncExpr ''count'' NoFuncType [ColumnRef 1])"
    by code_simp
  have a: "list_all isASCII ''COUNT''"
    by code_simp
  have c: "list_all2 differInCase ''COUNT'' ''count''"
    by code_simp
  have u: "ToUpper sampleEnv ''COUNT'' = ''COUNT''" "ToUpper sampleEnv ''count'' = ''COUNT''"
    by code_simp+
  have l: "lookupFunc sampleEnv ''COUNT'' = 5"
    by code_simp
  note t = lookup_case_insensitive [OF i1 d1 i2 d2, of "()" sampleEnv]
  from t have f1: "Func (extractAggExprs () sampleEnv sampleRender ! 2) = 5"
    by (simp add: u l)
  from t a c have "Func (extractAggExprs () sampleEnv sampleRender ! 2) =
      Func (extractAggExprs () sampleEnv sampleRender ! 3)"
    by blast
  with f1 have f2: "Func (extractAggExprs () sampleEnv sampleRender ! 3) = 5"
    by simp
  show ?thesis
    using i1 d1 i2 d2 a c f1 f2 u by simp
qed

subsection \<open>The empty render list\<close>

text \<open>
  C10. On the empty render list \<open>extractAggExprs\<close> returns the empty list of entries,
  and \<open>extractPostAggrExprs\<close> returns the empty list of expressions with
  \<open>needEval\<close> false.
\<close>

theorem empty_render:
  "extractAggExprs dsp env [] = [] \<and> extractPostAggrExprs dsp [] = ([], False)"
  by (simp add: extractAggExprs_def extractPostAggrExprs_def)

end
